theory Spec2Isabelle
  imports Main "HOL-Library.Word"
begin

unbundle bit_operations_syntax

section \<open>Python string primitives used by the storage adapter\<close>

text \<open>
  A Python \<open>str\<close> is represented by the bytes of its UTF-8 encoding, one \<open>char\<close> per
  byte.  The adapter only ever looks for the ASCII characters \<open>/\<close> and \<open>.\<close>, and an
  ASCII byte never occurs inside a multi-byte UTF-8 sequence, so \<open>lstrip\<close>,
  \<open>startswith\<close>, \<open>endswith\<close>, \<open>rfind\<close>, slicing at the positions found, and
  concatenation act on this representation exactly as they act on the code points.
\<close>

definition lstrip :: "string \<Rightarrow> string \<Rightarrow> string" where
  \<comment> \<open>\<open>s.lstrip(chars)\<close>: drop leading characters that occur in \<open>chars\<close>\<close>
  "lstrip s chars = dropWhile (\<lambda>c. c \<in> set chars) s"

definition startswith :: "string \<Rightarrow> string \<Rightarrow> bool" where
  "startswith s pre = (take (length pre) s = pre)"

definition endswith :: "string \<Rightarrow> string \<Rightarrow> bool" where
  "endswith s suf = (length suf \<le> length s \<and> drop (length s - length suf) s = suf)"

definition rfind :: "string \<Rightarrow> char \<Rightarrow> int" where
  \<comment> \<open>\<open>s.rfind(c)\<close>: highest index of \<open>c\<close>, or \<open>-1\<close>\<close>
  "rfind s c =
     (if c \<in> set s
      then int (length s) - 1 - int (length (takeWhile (\<lambda>x. x \<noteq> c) (rev s)))
      else - 1)"

fun str_join :: "string \<Rightarrow> string list \<Rightarrow> string" where
  \<comment> \<open>\<open>sep.join(segments)\<close>\<close>
  "str_join sep [] = []"
| "str_join sep [x] = x"
| "str_join sep (x # y # ys) = x @ sep @ str_join sep (y # ys)"


subsection \<open>\<open>os.path.join\<close> and \<open>os.path.splitext\<close> (POSIX flavour)\<close>

definition join_step :: "string \<Rightarrow> string \<Rightarrow> string" where
  \<comment> \<open>body of the loop \<open>for b in p\<close> of \<open>posixpath.join\<close>\<close>
  "join_step path b =
     (if startswith b ''/'' then b
      else if path = [] \<or> endswith path ''/'' then path @ b
      else path @ ''/'' @ b)"

definition join :: "string \<Rightarrow> string list \<Rightarrow> string" where
  "join a p = foldl join_step a p"

function splitext_loop :: "string \<Rightarrow> nat \<Rightarrow> nat \<Rightarrow> bool" where
  \<comment> \<open>the \<open>while filenameIndex < dotIndex\<close> loop of \<open>genericpath._splitext\<close>:
      \<open>True\<close> when a character other than the dot is met (the loop returns the split),
      \<open>False\<close> when the loop runs out (only leading dots)\<close>
  "splitext_loop p filenameIndex dotIndex =
     (if filenameIndex < dotIndex then
        (if p ! filenameIndex \<noteq> CHR ''.'' then True
         else splitext_loop p (Suc filenameIndex) dotIndex)
      else False)"
  by pat_completeness auto
termination
  by (relation "measure (\<lambda>(p, filenameIndex, dotIndex). dotIndex - filenameIndex)") auto

declare splitext_loop.simps [simp del]

definition splitext :: "string \<Rightarrow> string \<times> string" where
  "splitext p =
     (let sepIndex = rfind p CHR ''/'';
          dotIndex = rfind p CHR ''.''
      in if dotIndex > sepIndex \<and> splitext_loop p (nat (sepIndex + 1)) (nat dotIndex)
         then (take (nat dotIndex) p, drop (nat dotIndex) p)
         else (p, []))"

definition filename :: "string \<Rightarrow> string" where
  \<comment> \<open>what follows the last \<open>/\<close>: the part \<open>splitext\<close> looks for an extension in\<close>
  "filename p = drop (nat (rfind p CHR ''/'' + 1)) p"

definition spec_sidecar_base :: "string \<Rightarrow> string" where
  \<comment> \<open>the specification's wording, for comparison with \<open>splitext\<close>: the extension is
      the last \<open>.ext\<close> suffix of the file name and is removed; a key whose file name has
      no \<open>.\<close> is its own base\<close>
  "spec_sidecar_base key =
     (if CHR ''.'' \<in> set (filename key) then take (nat (rfind key CHR ''.'')) key else key)"

section \<open>SHA-1 (\<open>hashlib.sha1(...).hexdigest()\<close>)\<close>

type_synonym byte = "8 word"
type_synonym u32 = "32 word"

definition encode_utf8 :: "string \<Rightarrow> byte list" where
  \<comment> \<open>strings are held as their UTF-8 bytes, so encoding only changes the type\<close>
  "encode_utf8 s = map of_char s"

definition be64 :: "nat \<Rightarrow> byte list" where
  "be64 n = map (\<lambda>i. ucast (drop_bit (8 * (7 - i)) (of_nat n :: 64 word))) [0..<8]"

definition sha1_pad :: "byte list \<Rightarrow> byte list" where
  "sha1_pad m =
     m @ [0x80] @ replicate ((119 - length m mod 64) mod 64) 0 @ be64 (8 * length m)"

fun be32 :: "byte list \<Rightarrow> u32 list" where
  "be32 (a # b # c # d # rest) =
     (push_bit 24 (ucast a) OR push_bit 16 (ucast b) OR push_bit 8 (ucast c) OR ucast d)
       # be32 rest"
| "be32 _ = []"

fun schedule :: "nat \<Rightarrow> u32 list \<Rightarrow> u32 list" where
  "schedule 0 ws = ws"
| "schedule (Suc n) ws =
     (let l = length ws in
      schedule n
        (ws @ [word_rotl 1
                 (ws ! (l - 3) XOR ws ! (l - 8) XOR ws ! (l - 14) XOR ws ! (l - 16))]))"

definition sha1_f :: "nat \<Rightarrow> u32 \<Rightarrow> u32 \<Rightarrow> u32 \<Rightarrow> u32" where
  "sha1_f t b c d =
     (if t < 20 then (b AND c) OR (NOT b AND d)
      else if t < 40 then b XOR c XOR d
      else if t < 60 then (b AND c) OR (b AND d) OR (c AND d)
      else b XOR c XOR d)"

definition sha1_k :: "nat \<Rightarrow> u32" where
  "sha1_k t =
     (if t < 20 then 0x5A827999 else if t < 40 then 0x6ED9EBA1
      else if t < 60 then 0x8F1BBCDC else 0xCA62C1D6)"

type_synonym sha1_state = "u32 \<times> u32 \<times> u32 \<times> u32 \<times> u32"

fun sha1_round :: "u32 list \<Rightarrow> nat \<Rightarrow> sha1_state \<Rightarrow> sha1_state" where
  "sha1_round ws t (a, b, c, d, e) =
     (word_rotl 5 a + sha1_f t b c d + e + sha1_k t + ws ! t, a, word_rotl 30 b, c, d)"

fun sha1_compress :: "sha1_state \<Rightarrow> byte list \<Rightarrow> sha1_state" where
  "sha1_compress (h0, h1, h2, h3, h4) block =
     (case fold (sha1_round (schedule 64 (be32 block))) [0..<80] (h0, h1, h2, h3, h4) of
        (a, b, c, d, e) \<Rightarrow> (h0 + a, h1 + b, h2 + c, h3 + d, h4 + e))"

function sha1_blocks :: "sha1_state \<Rightarrow> byte list \<Rightarrow> sha1_state" where
  "sha1_blocks h bs =
     (if bs = [] then h else sha1_blocks (sha1_compress h (take 64 bs)) (drop 64 bs))"
  by pat_completeness auto
termination
  by (relation "measure (\<lambda>(h, bs). length bs)") auto

declare sha1_blocks.simps [simp del]

definition sha1_init :: sha1_state where
  "sha1_init = (0x67452301, 0xEFCDAB89, 0x98BADCFE, 0x10325476, 0xC3D2E1F0)"

definition hex_char :: "nat \<Rightarrow> char" where
  "hex_char n = (if n < 10 then char_of (48 + n) else char_of (87 + n))"

definition hex_u32 :: "u32 \<Rightarrow> string" where
  "hex_u32 w = map (\<lambda>i. hex_char (unat (drop_bit (4 * (7 - i)) w AND 15))) [0..<8]"

definition sha1_hexdigest :: "byte list \<Rightarrow> string" where
  "sha1_hexdigest m =
     (case sha1_blocks sha1_init (sha1_pad m) of
        (h0, h1, h2, h3, h4) \<Rightarrow> concat (map hex_u32 [h0, h1, h2, h3, h4]))"

section \<open>Timestamps\<close>

text \<open>
  A timezone-aware \<open>datetime\<close> is its number of microseconds since the epoch (UTC).
  Subtracting two of them gives a \<open>timedelta\<close>, which Python keeps normalised as
  \<open>days\<close>, \<open>0 \<le> seconds < 86400\<close> and \<open>0 \<le> microseconds < 1000000\<close>; the
  normalisation uses floor division, as \<open>div\<close> and \<open>mod\<close> on \<open>int\<close> do.
\<close>

type_synonym datetime = int

record timedelta =
  days :: int
  seconds :: int
  microseconds :: int

definition datetime_sub :: "datetime \<Rightarrow> datetime \<Rightarrow> timedelta" where
  "datetime_sub a b =
     (let us = a - b; s = us div 1000000 in
      \<lparr> days = s div 86400, seconds = s mod 86400, microseconds = us mod 1000000 \<rparr>)"

section \<open>Configuration, request context and Object Store responses\<close>

record request =
  accepts_webp :: bool

record config =
  AUTO_WEBP :: bool
  prefixed :: "string \<Rightarrow> string option"
    \<comment> \<open>attributes read through \<open>getattr(config, '%s_%s' % (prefix, key))\<close>;
        \<open>None\<close> is Python's \<open>None\<close>\<close>
  TC_AWS_RANDOMIZE_KEYS :: bool
  TC_AWS_ROOT_IMAGE_NAME :: string
  TC_AWS_STORE_METADATA :: bool
  TC_AWS_STORAGE_RRS :: bool
  TC_AWS_STORAGE_SSE :: bool
  STORES_CRYPTO_KEY_FOR_EACH_IMAGE :: bool

record server =
  security_key :: "string option"

record thumbor_context =
  config :: config
  request :: "request option"   \<comment> \<open>\<open>None\<close>: the context has no \<open>request\<close> attribute\<close>
  server :: server
  headers :: "(string \<times> string) list"

record aws_storage =
  ctx :: thumbor_context  \<comment> \<open>the attribute \<open>self.context\<close>\<close>
  config_prefix :: string
  config_prefix_interned :: bool
    \<comment> \<open>whether the prefix is the interned string object, the one a literal of the
        same text denotes; \<open>is\<close> compares objects, not texts\<close>
  storage_expiration_seconds :: "int option"
    \<comment> \<open>property supplied by the concrete storage class; read by \<open>is_expired\<close>\<close>

text \<open>
  A response of the Object Store is a dictionary.  The entries the adapter reads are
  \<open>Error\<close> (itself a dictionary, with an optional \<open>Message\<close>), \<open>LastModified\<close> and
  \<open>Body\<close>; \<open>other\<close> holds any further entries (such as \<open>ResponseMetadata\<close>), which
  only matter for whether the dictionary is empty.
\<close>

record response =
  Error :: "(string \<times> string) list option"
  LastModified :: "datetime option"
  Body :: "string option"
  other :: "(string \<times> string) list"

datatype pyval = Str string | Dict "(string \<times> string) list"

definition truthy_response :: "response \<Rightarrow> bool" where
  \<comment> \<open>a dictionary is true when it has at least one entry\<close>
  "truthy_response r =
     (Error r \<noteq> None \<or> LastModified r \<noteq> None \<or> Body r \<noteq> None \<or> other r \<noteq> [])"

fun truthy_val :: "pyval option \<Rightarrow> bool" where
  "truthy_val None = False"
| "truthy_val (Some (Str s)) = (s \<noteq> [])"
| "truthy_val (Some (Dict d)) = (d \<noteq> [])"

section \<open>The storage adapter (\<open>tc_aws/aws/storage.py\<close>)\<close>

definition is_auto_webp :: "aws_storage \<Rightarrow> bool" where
  "is_auto_webp self =
     (AUTO_WEBP (config (ctx self)) \<and>
      (case request (ctx self) of None \<Rightarrow> False | Some r \<Rightarrow> accepts_webp r))"

definition get_error :: "response \<Rightarrow> pyval option" where
  "get_error response =
     (case Error response of
        Some e \<Rightarrow>
          (case map_of e ''Message'' of
             Some m \<Rightarrow> Some (Str m)
           | None \<Rightarrow> Some (Dict e))
      | None \<Rightarrow> None)"

definition is_expired :: "aws_storage \<Rightarrow> datetime \<Rightarrow> response option \<Rightarrow> bool" where
  \<comment> \<open>the second argument is the value of \<open>datetime.now(tzutc())\<close>\<close>
  "is_expired self now key =
     (case key of
        None \<Rightarrow> True
      | Some k \<Rightarrow>
          if truthy_response k \<and> get_error k = None \<and> LastModified k \<noteq> None then
            (case storage_expiration_seconds self of
               None \<Rightarrow> False
             | Some expire_in_seconds \<Rightarrow>
                 if expire_in_seconds = 0 then False
                 else seconds (datetime_sub now (the (LastModified k))) > expire_in_seconds)
          else True)"

definition get_config :: "aws_storage \<Rightarrow> string \<Rightarrow> string option" where
  "get_config self config_key =
     prefixed (config (ctx self)) (config_prefix self @ ''_'' @ config_key)"

definition should_randomize_key :: "aws_storage \<Rightarrow> bool" where
  "should_randomize_key self = TC_AWS_RANDOMIZE_KEYS (config (ctx self))"

definition generate_digest :: "string list \<Rightarrow> string" where
  "generate_digest segments = sha1_hexdigest (encode_utf8 (str_join ''.'' segments))"

definition base_segments :: "aws_storage \<Rightarrow> string \<Rightarrow> string list" where
  \<comment> \<open>\<open>path_segments\<close> of \<open>_normalize_path\<close> after the root path and the
      \<open>webp\<close> segment have been added, before the digest is\<close>
  "base_segments self path =
     (let path = lstrip path ''/'';
          path_segments = [path];
          root_path = get_config self ''ROOT_PATH'';
          path_segments =
            (case root_path of
               Some r \<Rightarrow> if r \<noteq> [] then r # path_segments else path_segments
             | None \<Rightarrow> path_segments)
      in if is_auto_webp self then path_segments @ [''webp''] else path_segments)"

definition all_segments :: "aws_storage \<Rightarrow> string \<Rightarrow> string list" where
  \<comment> \<open>\<open>path_segments\<close> when \<open>_normalize_path\<close> joins it\<close>
  "all_segments self path =
     (let path_segments = base_segments self path
      in if should_randomize_key self
         then generate_digest path_segments # path_segments
         else path_segments)"

definition normalize_path :: "aws_storage \<Rightarrow> string \<Rightarrow> string" where
  "normalize_path self path =
     (let path_segments = all_segments self path;
          normalized_path =
            (if length path_segments > 1
             then lstrip (join (hd path_segments) (tl path_segments)) ''/''
             else hd path_segments)
      in if endswith normalized_path ''/''
         then normalized_path @ TC_AWS_ROOT_IMAGE_NAME (config (ctx self))
         else normalized_path)"

definition crypto_path_of :: "string \<Rightarrow> string" where
  \<comment> \<open>\<open>'%s.txt' % splitext(file_abspath)[0]\<close>\<close>
  "crypto_path_of file_abspath = fst (splitext file_abspath) @ ''.txt''"

definition detectors_path_of :: "string \<Rightarrow> string" where
  \<comment> \<open>\<open>'%s.detectors.txt' % splitext(file_abspath)[0]\<close>\<close>
  "detectors_path_of file_abspath = fst (splitext file_abspath) @ ''.detectors.txt''"

subsection \<open>The Object Store\<close>

record put_request =
  put_path :: string
  put_data :: string
  put_metadata :: "(string \<times> string) list"
  put_reduced_redundancy :: bool
  put_encrypt_key :: bool

record bucket =
  objects :: "string \<Rightarrow> response option"
  writes :: "put_request list"

definition Bucket_get :: "bucket \<Rightarrow> string \<Rightarrow> response option" where
  \<comment> \<open>Modelled from the spec: \<open>Bucket.get\<close> of \<open>tc_aws/aws/bucket.py\<close>, which
      answers with a descriptor (a mapping, possibly empty) or nothing at all.\<close>
  "Bucket_get b path = objects b path"

definition Bucket_put ::
  "bucket \<Rightarrow> string \<Rightarrow> string \<Rightarrow> (string \<times> string) list \<Rightarrow> bool \<Rightarrow> bool \<Rightarrow> string \<times> bucket" where
  \<comment> \<open>Modelled from the spec: \<open>Bucket.put\<close> of \<open>tc_aws/aws/bucket.py\<close>, which
      takes the key, the bytes and the attributes, and answers with the key.  The
      request is recorded in \<open>writes\<close>.\<close>
  "Bucket_put b path data metadata reduced_redundancy encrypt_key =
     (path,
      b\<lparr> writes := writes b @
           [\<lparr> put_path = path, put_data = data, put_metadata = metadata,
              put_reduced_redundancy = reduced_redundancy,
              put_encrypt_key = encrypt_key \<rparr>] \<rparr>)"

subsection \<open>Facade operations\<close>

datatype error = RuntimeError string

definition get :: "aws_storage \<Rightarrow> bucket \<Rightarrow> string \<Rightarrow> response option" where
  "get self b path = (let file_abspath = normalize_path self path in Bucket_get b file_abspath)"

definition set_data :: "aws_storage \<Rightarrow> bucket \<Rightarrow> string \<Rightarrow> string \<Rightarrow> string \<times> bucket" where
  \<comment> \<open>the method \<open>set\<close>; \<open>self.config_prefix is 'TC_AWS_RESULT_STORAGE'\<close> holds when the
      prefix is the very object of the literal: the same text, and interned\<close>
  "set_data self b bytes abspath =
     (let metadata =
            (if (config_prefix self = ''TC_AWS_RESULT_STORAGE'' \<and> config_prefix_interned self) \<and>
                TC_AWS_STORE_METADATA (config (ctx self))
             then headers (ctx self) else [])
      in Bucket_put b abspath bytes metadata
           (TC_AWS_STORAGE_RRS (config (ctx self)))
           (TC_AWS_STORAGE_SSE (config (ctx self))))"

definition exists_path :: "aws_storage \<Rightarrow> bucket \<Rightarrow> string \<Rightarrow> bool" where
  \<comment> \<open>the method \<open>exists\<close>\<close>
  "exists_path self b path =
     (let file_abspath = normalize_path self path;
          file_key = Bucket_get b file_abspath
      in case file_key of
           None \<Rightarrow> False
         | Some k \<Rightarrow> if \<not> truthy_response k \<or> truthy_val (get_error k) then False else True)"

definition truthy_str :: "string option \<Rightarrow> bool" where
  \<comment> \<open>truth value of a string or \<open>None\<close>\<close>
  "truthy_str v = (case v of None \<Rightarrow> False | Some s \<Rightarrow> s \<noteq> [])"

definition put_crypto :: "aws_storage \<Rightarrow> bucket \<Rightarrow> string \<Rightarrow> (error + string option) \<times> bucket" where
  "put_crypto self b path =
     (if \<not> STORES_CRYPTO_KEY_FOR_EACH_IMAGE (config (ctx self)) then (Inr None, b)
      else if \<not> truthy_str (security_key (server (ctx self))) then
        (Inl (RuntimeError
           ''STORES_CRYPTO_KEY_FOR_EACH_IMAGE can't be True if no SECURITY_KEY specified''), b)
      else
        (let file_abspath = normalize_path self path;
             crypto_path = crypto_path_of file_abspath;
             (stored, b') = set_data self b (the (security_key (server (ctx self)))) crypto_path
         in (Inr (Some crypto_path), b')))"

subsection \<open>Example configurations\<close>

definition example_config :: config where
  "example_config =
     \<lparr> AUTO_WEBP = False, prefixed = (\<lambda>k. None), TC_AWS_RANDOMIZE_KEYS = False,
       TC_AWS_ROOT_IMAGE_NAME = ''image.jpg'', TC_AWS_STORE_METADATA = False,
       TC_AWS_STORAGE_RRS = False, TC_AWS_STORAGE_SSE = False,
       STORES_CRYPTO_KEY_FOR_EACH_IMAGE = False \<rparr>"

definition example_storage :: aws_storage where
  "example_storage =
     \<lparr> ctx = \<lparr> config = example_config, request = Some \<lparr> accepts_webp = True \<rparr>,
               server = \<lparr> security_key = None \<rparr>, headers = [] \<rparr>,
       config_prefix = ''TC_AWS_RESULT_STORAGE'', config_prefix_interned = True,
       storage_expiration_seconds = Some 60 \<rparr>"

definition with_config :: "(config \<Rightarrow> config) \<Rightarrow> aws_storage \<Rightarrow> aws_storage" where
  "with_config f self = self\<lparr> ctx := (ctx self)\<lparr> config := f (config (ctx self)) \<rparr> \<rparr>"

definition with_root_path :: "string \<Rightarrow> aws_storage \<Rightarrow> aws_storage" where
  "with_root_path r self =
     with_config (\<lambda>c. c\<lparr> prefixed := (prefixed c)(config_prefix self @ ''_ROOT_PATH'' \<mapsto> r) \<rparr>) self"

definition with_auto_webp :: "aws_storage \<Rightarrow> aws_storage" where
  "with_auto_webp self = with_config (\<lambda>c. c\<lparr> AUTO_WEBP := True \<rparr>) self"

definition with_randomize_keys :: "aws_storage \<Rightarrow> aws_storage" where
  "with_randomize_keys self = with_config (\<lambda>c. c\<lparr> TC_AWS_RANDOMIZE_KEYS := True \<rparr>) self"

definition without_randomize_keys :: "aws_storage \<Rightarrow> aws_storage" where
  "without_randomize_keys self =
     with_config (\<lambda>c. c\<lparr> TC_AWS_RANDOMIZE_KEYS := False \<rparr>) self"

definition with_crypto_keys :: "aws_storage \<Rightarrow> aws_storage" where
  "with_crypto_keys self =
     with_config (\<lambda>c. c\<lparr> STORES_CRYPTO_KEY_FOR_EACH_IMAGE := True \<rparr>) self"

definition with_security_key :: "string \<Rightarrow> aws_storage \<Rightarrow> aws_storage" where
  "with_security_key k self =
     self\<lparr> ctx := (ctx self)\<lparr> server := \<lparr> security_key = Some k \<rparr> \<rparr> \<rparr>"

definition example_object :: "datetime \<Rightarrow> response" where
  \<comment> \<open>an error-free descriptor last modified at the given time\<close>
  "example_object t = \<lparr> Error = None, LastModified = Some t, Body = Some ''data'', other = [] \<rparr>"

definition example_bucket :: "response option \<Rightarrow> bucket" where
  \<comment> \<open>a bucket that answers every \<open>get\<close> with the given response\<close>
  "example_bucket r = \<lparr> objects = (\<lambda>k. r), writes = [] \<rparr>"

lemmas example_defs =
  example_config_def example_storage_def with_config_def with_root_path_def
  with_auto_webp_def with_randomize_keys_def without_randomize_keys_def with_crypto_keys_def with_security_key_def
  example_object_def example_bucket_def

section \<open>Facts about the string primitives\<close>

lemma lstrip_slash: "lstrip s ''/'' = dropWhile (\<lambda>c. c = CHR ''/'') s"
  by (simp add: lstrip_def)

lemma startswith_slash: "startswith s ''/'' \<longleftrightarrow> s \<noteq> [] \<and> hd s = CHR ''/''"
  by (cases s) (auto simp: startswith_def)

lemma endswith_slash: "endswith s ''/'' \<longleftrightarrow> s \<noteq> [] \<and> last s = CHR ''/''"
proof (cases s rule: rev_cases)
  case Nil
  then show ?thesis by (simp add: endswith_def)
next
  case (snoc ys y)
  then show ?thesis by (auto simp: endswith_def)
qed

section \<open>Expiry policy\<close>

lemma is_expired_valid:
  assumes "Error k = None" and "LastModified k = Some t"
  shows "is_expired self now (Some k) =
           (case storage_expiration_seconds self of
              None \<Rightarrow> False
            | Some ttl \<Rightarrow> ttl \<noteq> 0 \<and> ((now - t) div 1000000) mod 86400 > ttl)"
  using assms
  by (auto simp: is_expired_def get_error_def truthy_response_def datetime_sub_def Let_def
           split: option.splits)

text \<open>
  C7.  \<open>is_expired\<close> answers \<open>True\<close> whenever the descriptor is absent, or carries an
  \<open>Error\<close> entry, or has no \<open>LastModified\<close> entry, whatever the expiry setting is
  (including the never-expire settings \<open>None\<close> and \<open>0\<close>) and whatever the time is.
\<close>

theorem is_expired_bad_key:
  "key = None \<or> (\<exists>k. key = Some k \<and> (Error k \<noteq> None \<or> LastModified k = None))
   \<Longrightarrow> is_expired self now key"
  by (auto simp: is_expired_def get_error_def split: option.splits)

theorem is_expired_bad_key_witness:
  "is_expired (example_storage\<lparr> storage_expiration_seconds := None \<rparr>) 5000000
     (Some \<lparr> Error = Some [(''Code'', ''NoSuchKey'')], LastModified = Some 0,
              Body = None, other = [] \<rparr>)"
  using is_expired_bad_key
    [where key = "Some \<lparr> Error = Some [(''Code'', ''NoSuchKey'')], LastModified = Some 0,
                          Body = None, other = [] \<rparr>"
       and self = "example_storage\<lparr> storage_expiration_seconds := None \<rparr>"
       and now = 5000000]
  by simp

text \<open>
  C8.  For a descriptor that is present, has no \<open>Error\<close> entry and has a
  \<open>LastModified\<close> entry, \<open>is_expired\<close> answers \<open>False\<close> when the expiry setting is
  \<open>None\<close> or \<open>0\<close>, whatever the current time and the age of the object are.
\<close>

theorem is_expired_never_expire:
  "Error k = None \<Longrightarrow> LastModified k = Some t \<Longrightarrow>
   storage_expiration_seconds self = None \<or> storage_expiration_seconds self = Some 0 \<Longrightarrow>
   \<not> is_expired self now (Some k)"
  by (auto simp: is_expired_valid)

theorem is_expired_never_expire_witness:
  "\<not> is_expired (example_storage\<lparr> storage_expiration_seconds := Some 0 \<rparr>)
       (1000 * 86400 * 1000000) (Some (example_object 0))
   \<and> \<not> is_expired (example_storage\<lparr> storage_expiration_seconds := None \<rparr>)
       (1000 * 86400 * 1000000) (Some (example_object 0))"
  using
    is_expired_never_expire
      [where k = "example_object 0" and t = 0
         and self = "example_storage\<lparr> storage_expiration_seconds := Some 0 \<rparr>"
         and now = "1000 * 86400 * 1000000"]
    is_expired_never_expire
      [where k = "example_object 0" and t = 0
         and self = "example_storage\<lparr> storage_expiration_seconds := None \<rparr>"
         and now = "1000 * 86400 * 1000000"]
  by (simp add: example_object_def)

lemma is_expired_within_a_day:
  assumes "Error k = None" and "LastModified k = Some t"
    and "storage_expiration_seconds self = Some ttl" and "0 < ttl"
    and "0 \<le> now - t" and "now - t < 86400 * 1000000"
  shows "is_expired self now (Some k) = ((now - t) div 1000000 > ttl)"
proof -
  have "0 \<le> (now - t) div 1000000" and "(now - t) div 1000000 < 86400"
    using assms(5,6) by auto
  then have "((now - t) div 1000000) mod 86400 = (now - t) div 1000000"
    by simp
  then show ?thesis
    using assms(1-4) by (simp add: is_expired_valid)
qed

lemma is_expired_boundary:
  "\<not> is_expired (example_storage\<lparr> storage_expiration_seconds := Some 60 \<rparr>)
       60999000 (Some (example_object 0))"
  "is_expired (example_storage\<lparr> storage_expiration_seconds := Some 60 \<rparr>)
       61000000 (Some (example_object 0))"
  by (simp_all add: is_expired_valid example_object_def)

text \<open>
  C1.  The claim is that, for a valid descriptor and a positive expiry setting,
  \<open>is_expired\<close> compares the whole elapsed time in seconds with the setting, also for
  ages of 24 hours or more.  The code compares \<open>timediff.seconds\<close>, the seconds
  component of the normalised \<open>timedelta\<close>, which leaves the days out: an object
  that is exactly one day old, with an expiry setting of 60 seconds, has an elapsed
  time of 86400 seconds and is reported as not expired.
\<close>

theorem is_expired_one_day_old:
  "\<not> is_expired (example_storage\<lparr> storage_expiration_seconds := Some 60 \<rparr>)
       (86400 * 1000000) (Some (example_object 0))
   \<and> (86400 * 1000000 - 0) div 1000000 > (60 :: int)
   \<and> seconds (datetime_sub (86400 * 1000000) 0) = 0
   \<and> days (datetime_sub (86400 * 1000000) 0) = 1"
  by (simp add: is_expired_valid example_object_def datetime_sub_def)

theorem is_expired_one_day_old_witness:
  "is_expired (example_storage\<lparr> storage_expiration_seconds := Some 60 \<rparr>)
     (61 * 1000000) (Some (example_object 0))
   \<and> \<not> is_expired (example_storage\<lparr> storage_expiration_seconds := Some 60 \<rparr>)
       (86400 * 1000000) (Some (example_object 0))"
  using is_expired_one_day_old is_expired_boundary(2) by simp

section \<open>Facade operations: \<open>put_crypto\<close> and \<open>exists\<close>\<close>

text \<open>
  C5.  \<open>put_crypto\<close> is gated in order.  When \<open>STORES_CRYPTO_KEY_FOR_EACH_IMAGE\<close> is
  off it returns \<open>None\<close> and leaves the Object Store as it was, whether or not a
  security key is configured.  When the setting is on and the server has no security
  key (\<open>None\<close> or the empty string) it raises \<open>RuntimeError\<close>, again with the Object
  Store as it was.  Only when both checks pass is one write sent to the store, at the
  crypto sidecar path, and that path returned.
\<close>

theorem put_crypto_gating:
  "(\<not> STORES_CRYPTO_KEY_FOR_EACH_IMAGE (config (ctx self)) \<longrightarrow>
      put_crypto self b path = (Inr None, b))
   \<and> (STORES_CRYPTO_KEY_FOR_EACH_IMAGE (config (ctx self)) \<and>
      \<not> truthy_str (security_key (server (ctx self))) \<longrightarrow>
      (\<exists>msg. put_crypto self b path = (Inl (RuntimeError msg), b)))
   \<and> (STORES_CRYPTO_KEY_FOR_EACH_IMAGE (config (ctx self)) \<and>
      security_key (server (ctx self)) = Some k \<and> k \<noteq> [] \<longrightarrow>
      fst (put_crypto self b path) = Inr (Some (crypto_path_of (normalize_path self path))) \<and>
      length (writes (snd (put_crypto self b path))) = Suc (length (writes b)) \<and>
      put_path (last (writes (snd (put_crypto self b path))))
        = crypto_path_of (normalize_path self path) \<and>
      put_data (last (writes (snd (put_crypto self b path)))) = k)"
  by (simp add: put_crypto_def truthy_str_def set_data_def Bucket_put_def Let_def)

theorem put_crypto_gating_witness:
  "put_crypto example_storage (example_bucket None) ''/images/cat.jpg''
     = (Inr None, example_bucket None)
   \<and> put_crypto (with_security_key ''MY_SECURE_KEY'' example_storage) (example_bucket None)
       ''/images/cat.jpg''
     = (Inr None, example_bucket None)
   \<and> (\<exists>msg. put_crypto (with_crypto_keys example_storage) (example_bucket None)
              ''/images/cat.jpg''
            = (Inl (RuntimeError msg), example_bucket None))
   \<and> length (writes (snd (put_crypto
         (with_crypto_keys (with_security_key ''MY_SECURE_KEY'' example_storage))
         (example_bucket None) ''/images/cat.jpg''))) = 1"
  using
    put_crypto_gating
      [where self = example_storage and b = "example_bucket None"
         and path = "''/images/cat.jpg''"]
    put_crypto_gating
      [where self = "with_security_key ''MY_SECURE_KEY'' example_storage"
         and b = "example_bucket None" and path = "''/images/cat.jpg''"]
    put_crypto_gating
      [where self = "with_crypto_keys example_storage" and b = "example_bucket None"
         and path = "''/images/cat.jpg''"]
    put_crypto_gating
      [where self = "with_crypto_keys (with_security_key ''MY_SECURE_KEY'' example_storage)"
         and b = "example_bucket None" and path = "''/images/cat.jpg''"
         and k = "''MY_SECURE_KEY''"]
  by (simp add: example_defs truthy_str_def)

lemma exists_path_eq:
  "exists_path self b path =
     (case Bucket_get b (normalize_path self path) of
        None \<Rightarrow> False
      | Some k \<Rightarrow> truthy_response k \<and> \<not> truthy_val (get_error k))"
  by (simp add: exists_path_def Let_def split: option.splits)

lemma exists_path_ignores_expiry:
  assumes "Bucket_get b (normalize_path self path) = Some k"
    and "Error k = None" and "LastModified k = Some t"
  shows "exists_path self b path"
  using assms by (simp add: exists_path_eq truthy_response_def get_error_def)

lemma exists_path_stale_object:
  "exists_path example_storage (example_bucket (Some (example_object 0))) ''/images/cat.jpg''
   \<and> is_expired example_storage (3600 * 1000000) (Some (example_object 0))"
  by (simp add: exists_path_eq Bucket_get_def is_expired_valid truthy_response_def
        get_error_def example_defs)

text \<open>
  C6.  The claim is that \<open>exists\<close> answers \<open>False\<close> exactly when the descriptor is
  absent, empty, or carries an error indicator.  The code tests the truth value of
  what \<open>_get_error\<close> returns, where \<open>is_expired\<close> tests it against \<open>None\<close>: a
  descriptor whose \<open>Error\<close> entry has an empty \<open>Message\<close> carries an error
  indicator and is expired for \<open>is_expired\<close>, yet \<open>exists\<close> answers \<open>True\<close>.
\<close>

theorem exists_path_empty_error_message:
  "exists_path example_storage
     (example_bucket (Some \<lparr> Error = Some [(''Code'', ''AccessDenied''), (''Message'', [])],
                              LastModified = None, Body = None, other = [] \<rparr>))
     ''/images/cat.jpg''
   \<and> get_error \<lparr> Error = Some [(''Code'', ''AccessDenied''), (''Message'', [])],
                  LastModified = None, Body = None, other = [] \<rparr> = Some (Str [])
   \<and> is_expired example_storage 0
       (Some \<lparr> Error = Some [(''Code'', ''AccessDenied''), (''Message'', [])],
                LastModified = None, Body = None, other = [] \<rparr>)"
  by (simp add: exists_path_eq Bucket_get_def is_expired_def truthy_response_def
        get_error_def example_defs)

theorem exists_path_empty_error_message_witness:
  "exists_path example_storage
     (example_bucket (Some \<lparr> Error = Some [(''Code'', ''AccessDenied''), (''Message'', [])],
                              LastModified = None, Body = None, other = [] \<rparr>))
     ''/images/cat.jpg''
   \<and> \<not> exists_path example_storage
     (example_bucket
        (Some \<lparr> Error = Some [(''Code'', ''AccessDenied''), (''Message'', ''Access Denied'')],
                 LastModified = None, Body = None, other = [] \<rparr>))
     ''/images/cat.jpg''"
  using exists_path_empty_error_message
  by (simp add: exists_path_eq Bucket_get_def truthy_response_def get_error_def example_defs)

section \<open>Key derivation\<close>

lemma all_segments_not_Nil: "all_segments self path \<noteq> []"
  by (simp add: all_segments_def base_segments_def Let_def split: option.splits)

text \<open>
  C10.  For a path made only of \<open>/\<close> characters, with no root path (unset or empty),
  no \<open>webp\<close> segment and no randomisation, the derived key is the empty string:
  stripping leaves the empty string as the single segment, which does not end with
  \<open>/\<close>, so the root image name is not appended, and the Object Store is asked for
  the empty key.
\<close>

theorem normalize_path_only_slashes:
  "set path \<subseteq> {CHR ''/''} \<Longrightarrow>
   get_config self ''ROOT_PATH'' = None \<or> get_config self ''ROOT_PATH'' = Some [] \<Longrightarrow>
   \<not> is_auto_webp self \<Longrightarrow> \<not> should_randomize_key self \<Longrightarrow>
   normalize_path self path = [] \<and> get self b path = Bucket_get b []"
proof -
  assume slashes: "set path \<subseteq> {CHR ''/''}"
    and root: "get_config self ''ROOT_PATH'' = None \<or> get_config self ''ROOT_PATH'' = Some []"
    and webp: "\<not> is_auto_webp self" and rand: "\<not> should_randomize_key self"
  from slashes have "lstrip path ''/'' = []"
    by (auto simp: lstrip_slash)
  with root webp rand have "all_segments self path = [[]]"
    by (auto simp: all_segments_def base_segments_def Let_def)
  then have "normalize_path self path = []"
    by (simp add: normalize_path_def Let_def endswith_slash)
  then show ?thesis
    by (simp add: get_def Let_def)
qed

theorem normalize_path_only_slashes_witness:
  "normalize_path example_storage ''/'' = []
   \<and> normalize_path example_storage ''///'' = []
   \<and> get example_storage (example_bucket None) ''/'' = Bucket_get (example_bucket None) []"
  using
    normalize_path_only_slashes
      [where path = "''/''" and self = example_storage and b = "example_bucket None"]
    normalize_path_only_slashes
      [where path = "''///''" and self = example_storage and b = "example_bucket None"]
  by (simp add: get_config_def is_auto_webp_def should_randomize_key_def example_defs)

lemma join_step_suffix: "\<exists>x. join_step path b = x @ b"
  by (auto simp: join_step_def)

lemma join_suffix: "p \<noteq> [] \<Longrightarrow> \<exists>x. join a p = x @ last p"
proof (cases p rule: rev_cases)
  case Nil
  assume "p \<noteq> []"
  with Nil show ?thesis by simp
next
  case (snoc ys y)
  then show ?thesis
    using join_step_suffix [of "foldl join_step a ys" y] by (simp add: join_def)
qed

lemma dropWhile_keeps_suffix:
  "s \<noteq> [] \<Longrightarrow> \<not> P (hd s) \<Longrightarrow> \<exists>y. dropWhile P (x @ s) = y @ s"
proof (induction x)
  case Nil
  then show ?case by (cases s) auto
next
  case (Cons c x)
  then show ?case by (cases "P c") auto
qed

lemma endswith_append: "endswith (x @ s) s"
  by (simp add: endswith_def)

lemma endswith_append2: "endswith (x @ t @ s) s"
  using endswith_append [of "x @ t" s] by simp

lemma last_all_segments:
  "\<not> is_auto_webp self \<Longrightarrow> last (all_segments self path) = lstrip path ''/''"
  by (simp add: all_segments_def base_segments_def Let_def split: option.splits)

lemma normalized_keeps_last_segment:
  assumes "segs \<noteq> []" and "last segs = s" and "s \<noteq> []" and "hd s \<noteq> CHR ''/''"
  shows "\<exists>y. (if length segs > 1 then lstrip (join (hd segs) (tl segs)) ''/'' else hd segs)
               = y @ s"
proof (cases "length segs > 1")
  case True
  then have tl: "tl segs \<noteq> []" and "last (tl segs) = s"
    using assms(1,2) by (cases segs; auto)+
  then obtain x where "join (hd segs) (tl segs) = x @ s"
    using join_suffix [of "tl segs" "hd segs"] by auto
  then show ?thesis
    using True dropWhile_keeps_suffix [of s "\<lambda>c. c = CHR ''/''" x] assms(3,4)
    by (simp add: lstrip_slash)
next
  case False
  then have "segs = [s]"
    using assms(1,2) by (cases segs) auto
  then show ?thesis by simp
qed

text \<open>
  C4.  When the root image name is not empty and does not end with \<open>/\<close>, the derived
  key never ends with \<open>/\<close>: a joined result that ends with \<open>/\<close> gets the root image
  name appended.  For the directory-form path \<open>a/b/\<close>, with no \<open>webp\<close> segment and the
  root image name \<open>image.jpg\<close>, the derived key ends with \<open>b/image.jpg\<close> and not with
  \<open>b/\<close>, whatever the root path and the randomisation setting are.
\<close>

theorem normalize_path_never_ends_with_slash:
  "(TC_AWS_ROOT_IMAGE_NAME (config (ctx self)) \<noteq> [] \<and>
    \<not> endswith (TC_AWS_ROOT_IMAGE_NAME (config (ctx self))) ''/'' \<longrightarrow>
      \<not> endswith (normalize_path self path) ''/'')
   \<and> (\<not> is_auto_webp self \<and> TC_AWS_ROOT_IMAGE_NAME (config (ctx self)) = ''image.jpg'' \<longrightarrow>
      endswith (normalize_path self ''a/b/'') ''b/image.jpg'' \<and>
      \<not> endswith (normalize_path self ''a/b/'') ''b/'')"
proof (intro conjI impI)
  assume "TC_AWS_ROOT_IMAGE_NAME (config (ctx self)) \<noteq> [] \<and>
    \<not> endswith (TC_AWS_ROOT_IMAGE_NAME (config (ctx self))) ''/''"
  then show "\<not> endswith (normalize_path self path) ''/''"
    by (auto simp: normalize_path_def Let_def endswith_slash)
next
  assume a: "\<not> is_auto_webp self \<and> TC_AWS_ROOT_IMAGE_NAME (config (ctx self)) = ''image.jpg''"
  let ?segs = "all_segments self ''a/b/''"
  have "last ?segs = ''a/b/''"
    using a by (simp add: last_all_segments lstrip_slash)
  then obtain y where
    y: "(if length ?segs > 1 then lstrip (join (hd ?segs) (tl ?segs)) ''/'' else hd ?segs)
          = y @ ''a/b/''"
    using normalized_keeps_last_segment [of ?segs "''a/b/''"] all_segments_not_Nil by auto
  then have key: "normalize_path self ''a/b/'' = y @ ''a/'' @ ''b/image.jpg''"
    using a by (simp add: normalize_path_def Let_def endswith_slash)
  show "endswith (normalize_path self ''a/b/'') ''b/image.jpg''"
    unfolding key by (rule endswith_append2)
  show "\<not> endswith (normalize_path self ''a/b/'') ''b/''"
    unfolding key by (simp add: endswith_def)
qed

theorem normalize_path_never_ends_with_slash_witness:
  "normalize_path example_storage ''a/b/'' = ''a/b/image.jpg''
   \<and> \<not> endswith (normalize_path example_storage ''a/b/'') ''/''
   \<and> endswith (normalize_path example_storage ''a/b/'') ''b/image.jpg''
   \<and> \<not> endswith (normalize_path (with_root_path ''prod/'' example_storage) []) ''/''"
  using
    normalize_path_never_ends_with_slash [where self = example_storage and path = "''a/b/''"]
    normalize_path_never_ends_with_slash
      [where self = "with_root_path ''prod/'' example_storage" and path = "[]"]
  by (simp add: normalize_path_def all_segments_def base_segments_def get_config_def
        is_auto_webp_def should_randomize_key_def endswith_def lstrip_def example_defs)

subsection \<open>The digest is forty hexadecimal characters\<close>

lemma unat_and_15: "unat (w AND 15 :: u32) < 16"
proof -
  have "unat (w AND 15) \<le> unat (15 :: u32)"
    by (rule word_and_le1 [THEN word_le_nat_alt [THEN iffD1]])
  then show ?thesis by simp
qed

lemma hex_char_not_slash: "n < 16 \<Longrightarrow> hex_char n \<noteq> CHR ''/''"
proof
  assume n: "n < 16" and eq: "hex_char n = CHR ''/''"
  have "(of_char (hex_char n) :: nat) \<ge> 48"
    using n by (simp add: hex_char_def)
  with eq show False by simp
qed

lemma length_hex_u32: "length (hex_u32 w) = 8"
  by (simp add: hex_u32_def)

lemma slash_notin_hex_u32: "CHR ''/'' \<notin> set (hex_u32 w)"
proof
  assume "CHR ''/'' \<in> set (hex_u32 w)"
  then obtain i where "hex_char (unat (drop_bit (4 * (7 - i)) w AND 15)) = CHR ''/''"
    by (auto simp: hex_u32_def)
  then show False
    using hex_char_not_slash [OF unat_and_15 [of "drop_bit (4 * (7 - i)) w"]] by simp
qed

lemma length_sha1_hexdigest: "length (sha1_hexdigest m) = 40"
  by (simp add: sha1_hexdigest_def length_hex_u32 split: prod.splits)

lemma slash_notin_sha1_hexdigest: "CHR ''/'' \<notin> set (sha1_hexdigest m)"
  by (simp add: sha1_hexdigest_def slash_notin_hex_u32 split: prod.splits)

lemma length_generate_digest: "length (generate_digest segments) = 40"
  by (simp add: generate_digest_def length_sha1_hexdigest)

lemma slash_notin_generate_digest: "CHR ''/'' \<notin> set (generate_digest segments)"
  by (simp add: generate_digest_def slash_notin_sha1_hexdigest)

subsection \<open>Joining never doubles a separator\<close>









subsection \<open>Joining well-formed segments\<close>

lemma base_segments_eq:
  "base_segments self path =
     (case get_config self ''ROOT_PATH'' of
        Some r \<Rightarrow> if r \<noteq> [] then [r] else []
      | None \<Rightarrow> [])
     @ [lstrip path ''/'']
     @ (if is_auto_webp self then [''webp''] else [])"
  by (simp add: base_segments_def Let_def split: option.splits)





lemma lstrip_no_leading_slash: "\<not> startswith s ''/'' \<Longrightarrow> lstrip s ''/'' = s"
  by (cases s) (auto simp: startswith_slash lstrip_slash)




subsection \<open>Randomised keys\<close>

lemma foldl_join_step_prefix:
  "\<forall>s\<in>set bs. \<not> startswith s ''/'' \<Longrightarrow>
   foldl join_step (d @ ''/'' @ x) bs = d @ ''/'' @ foldl join_step x bs"
proof (induction bs arbitrary: x)
  case Nil
  then show ?case by simp
next
  case (Cons y bs)
  have "join_step (d @ ''/'' @ x) y = d @ ''/'' @ join_step x y"
    using Cons.prems by (auto simp: join_step_def endswith_slash)
  then show ?case
    using Cons.IH [of "join_step x y"] Cons.prems by simp
qed

lemma join_digest_prefix:
  assumes "d \<noteq> []" and "\<not> endswith d ''/''" and "\<forall>s\<in>set (b # bs). \<not> startswith s ''/''"
  shows "join d (b # bs) = d @ ''/'' @ join b bs"
proof -
  have "join_step d b = d @ ''/'' @ b"
    using assms by (simp add: join_step_def)
  then show ?thesis
    using foldl_join_step_prefix [of bs d b] assms(3) by (simp add: join_def)
qed

lemma join_no_leading_slash:
  "\<not> startswith a ''/'' \<Longrightarrow> \<forall>s\<in>set p. \<not> startswith s ''/'' \<Longrightarrow>
   \<not> startswith (join a p) ''/''"
proof (induction p arbitrary: a)
  case Nil
  then show ?case by (simp add: join_def)
next
  case (Cons b p)
  have "\<not> startswith (join_step a b) ''/''"
    using Cons.prems by (cases a) (auto simp: join_step_def startswith_slash)
  then have "\<not> startswith (join (join_step a b) p) ''/''"
    using Cons.prems by (intro Cons.IH) auto
  then show ?case by (simp add: join_def)
qed

lemma base_segments_without_randomize_keys:
  "base_segments (without_randomize_keys self) path = base_segments self path"
  by (simp add: base_segments_eq get_config_def is_auto_webp_def without_randomize_keys_def
        with_config_def)

lemma normalize_path_without_randomize_keys:
  "normalize_path (without_randomize_keys self) path =
     (let segs = base_segments self path;
          n = (if length segs > 1 then lstrip (join (hd segs) (tl segs)) ''/'' else hd segs)
      in if endswith n ''/'' then n @ TC_AWS_ROOT_IMAGE_NAME (config (ctx self)) else n)"
proof -
  have "all_segments (without_randomize_keys self) path = base_segments self path"
    using base_segments_without_randomize_keys [of self path]
    by (simp add: all_segments_def Let_def should_randomize_key_def
          without_randomize_keys_def with_config_def)
  then show ?thesis
    by (simp add: normalize_path_def Let_def without_randomize_keys_def with_config_def)
qed

lemma normalize_path_randomized:
  assumes rand: "should_randomize_key self"
    and root: "\<forall>r. get_config self ''ROOT_PATH'' = Some r \<longrightarrow> \<not> startswith r ''/''"
  shows "normalize_path self path =
           generate_digest (base_segments self path) @ ''/'' @
           (if normalize_path (without_randomize_keys self) path = []
            then TC_AWS_ROOT_IMAGE_NAME (config (ctx self))
            else normalize_path (without_randomize_keys self) path)"
proof -
  let ?segs = "base_segments self path"
  let ?d = "generate_digest ?segs"
  let ?rin = "TC_AWS_ROOT_IMAGE_NAME (config (ctx self))"
  obtain b bs where bbs: "?segs = b # bs"
    by (cases ?segs) (auto simp: base_segments_eq split: option.splits)
  have "\<not> startswith (lstrip path ''/'') ''/''"
    using dropWhile_eq_Nil_conv [of "\<lambda>c. c = CHR ''/''" path]
      hd_dropWhile [of "\<lambda>c. c = CHR ''/''" path]
    by (auto simp: startswith_slash lstrip_slash)
  then have nolead: "\<forall>s\<in>set (b # bs). \<not> startswith s ''/''"
    using root bbs [symmetric]
    by (auto simp: base_segments_eq startswith_def split: option.splits if_splits)
  have dne: "?d \<noteq> []"
    using length_generate_digest [of ?segs] by auto
  then have "last ?d \<in> set ?d"
    by (rule last_in_set)
  then have "last ?d \<noteq> CHR ''/''"
    using slash_notin_generate_digest [of ?segs] by metis
  with dne have d: "?d \<noteq> []" "\<not> endswith ?d ''/''"
    by (simp_all add: endswith_slash)
  let ?j = "join b bs"
  have jd: "join ?d (b # bs) = ?d @ ''/'' @ ?j"
    using d nolead by (rule join_digest_prefix)
  have j: "\<not> startswith ?j ''/''"
    using nolead by (intro join_no_leading_slash) auto
  have "\<not> startswith (?d @ ''/'' @ ?j) ''/''"
    using d slash_notin_generate_digest [of ?segs]
    by (cases ?d) (auto simp: startswith_slash)
  then have strip: "lstrip (?d @ ''/'' @ ?j) ''/'' = ?d @ ''/'' @ ?j"
    by (rule lstrip_no_leading_slash)
  have all: "all_segments self path = ?d # b # bs"
    using rand bbs by (simp add: all_segments_def Let_def)
  have key: "normalize_path self path =
               (if ?j = [] \<or> endswith ?j ''/'' then ?d @ ''/'' @ ?j @ ?rin else ?d @ ''/'' @ ?j)"
    using all jd strip by (auto simp: normalize_path_def Let_def endswith_slash)
  have n: "(if length ?segs > 1 then lstrip (join (hd ?segs) (tl ?segs)) ''/'' else hd ?segs) = ?j"
    using bbs j lstrip_no_leading_slash [of ?j]
    by (cases bs) (auto simp: join_def)
  have key0: "normalize_path (without_randomize_keys self) path =
                (if endswith ?j ''/'' then ?j @ ?rin else ?j)"
    using n by (simp add: normalize_path_without_randomize_keys Let_def)
  show ?thesis
    unfolding key key0 by (auto simp: endswith_slash)
qed

text \<open>
  C3.  The claim is that, with \<open>randomize_keys\<close> on, the first segment of the derived
  key is the SHA-1 hex digest of the segments joined by \<open>.\<close>, for every path and
  policy, and that turning the setting on only inserts that segment in front.  The
  code inserts the digest in front of the segment list, but \<open>os.path.join\<close> discards
  everything before a segment that starts with \<open>/\<close>: with the root path \<open>/abs\<close> the
  digest is dropped and the key is the same with and without randomisation.
\<close>

theorem normalize_path_absolute_root_drops_digest:
  "should_randomize_key (with_randomize_keys (with_root_path ''/abs'' example_storage))
   \<and> all_segments (with_randomize_keys (with_root_path ''/abs'' example_storage))
         ''/images/cat.jpg''
       = [generate_digest [''/abs'', ''images/cat.jpg''], ''/abs'', ''images/cat.jpg'']
   \<and> normalize_path (with_randomize_keys (with_root_path ''/abs'' example_storage))
         ''/images/cat.jpg''
       = ''abs/images/cat.jpg''
   \<and> normalize_path (with_root_path ''/abs'' example_storage) ''/images/cat.jpg''
       = ''abs/images/cat.jpg''
   \<and> length (generate_digest [''/abs'', ''images/cat.jpg'']) = 40"
proof -
  let ?self = "with_randomize_keys (with_root_path ''/abs'' example_storage)"
  have rand: "should_randomize_key ?self"
    by (simp add: should_randomize_key_def example_defs)
  have segs: "all_segments ?self ''/images/cat.jpg''
                = [generate_digest [''/abs'', ''images/cat.jpg''], ''/abs'', ''images/cat.jpg'']"
    by (simp add: all_segments_def base_segments_eq get_config_def is_auto_webp_def
          should_randomize_key_def lstrip_slash Let_def example_defs)
  have "join (generate_digest [''/abs'', ''images/cat.jpg'']) [''/abs'', ''images/cat.jpg'']
          = ''/abs/images/cat.jpg''"
    by (simp add: join_def join_step_def startswith_def endswith_def)
  then have key: "normalize_path ?self ''/images/cat.jpg'' = ''abs/images/cat.jpg''"
    using segs by (simp add: normalize_path_def Let_def lstrip_slash endswith_def)
  have key0: "normalize_path (with_root_path ''/abs'' example_storage) ''/images/cat.jpg''
                = ''abs/images/cat.jpg''"
    by (simp add: normalize_path_def all_segments_def base_segments_eq get_config_def
          is_auto_webp_def should_randomize_key_def lstrip_slash startswith_def endswith_def
          join_def join_step_def Let_def example_defs)
  show ?thesis
    using rand segs key key0 length_generate_digest by simp
qed

theorem normalize_path_absolute_root_drops_digest_witness:
  "normalize_path (with_randomize_keys (with_root_path ''/abs'' example_storage))
     ''/images/cat.jpg''
   = normalize_path (with_root_path ''/abs'' example_storage) ''/images/cat.jpg''
   \<and> takeWhile (\<lambda>c. c \<noteq> CHR ''/'')
        (normalize_path (with_randomize_keys (with_root_path ''/abs'' example_storage))
           ''/images/cat.jpg'')
     \<noteq> generate_digest [''/abs'', ''images/cat.jpg'']"
proof -
  have "length (takeWhile (\<lambda>c. c \<noteq> CHR ''/'')
          (normalize_path (with_randomize_keys (with_root_path ''/abs'' example_storage))
             ''/images/cat.jpg'')) = 3"
    using normalize_path_absolute_root_drops_digest by simp
  then show ?thesis
    using normalize_path_absolute_root_drops_digest by auto
qed

section \<open>Sidecar paths\<close>

lemma rfind_append_last: "c \<notin> set ys \<Longrightarrow> rfind (xs @ c # ys) c = int (length xs)"
proof -
  assume c: "c \<notin> set ys"
  have "takeWhile (\<lambda>x. x \<noteq> c) (rev ys @ c # rev xs) = rev ys"
    using c takeWhile_append2 [of "rev ys" "\<lambda>x. x \<noteq> c" "c # rev xs"] by auto
  then show ?thesis
    by (simp add: rfind_def)
qed

lemma rfind_append_notin: "c \<notin> set ys \<Longrightarrow> rfind (xs @ ys) c = rfind xs c"
proof (cases "c \<in> set xs")
  case False
  assume "c \<notin> set ys"
  with False show ?thesis by (simp add: rfind_def)
next
  case True
  assume c: "c \<notin> set ys"
  from True obtain as bs where xs: "xs = as @ c # bs" and bs: "c \<notin> set bs"
    using split_list_last [of c xs] by auto
  have "rfind (as @ c # (bs @ ys)) c = int (length as)"
    using c bs by (intro rfind_append_last) auto
  moreover have "rfind (as @ c # bs) c = int (length as)"
    using bs by (rule rfind_append_last)
  ultimately show ?thesis
    using xs by simp
qed

lemma rfind_bounds: "- 1 \<le> rfind s c \<and> rfind s c < int (length s)"
proof (cases "c \<in> set s")
  case False
  then show ?thesis by (simp add: rfind_def)
next
  case True
  then obtain as bs where "s = as @ c # bs" and "c \<notin> set bs"
    using split_list_last [of c s] by auto
  then show ?thesis
    using rfind_append_last [of c bs as] by simp
qed

lemma splitext_loop_iff:
  "splitext_loop p i j \<longleftrightarrow> (\<exists>k. i \<le> k \<and> k < j \<and> p ! k \<noteq> CHR ''.'')"
proof (induction p i j rule: splitext_loop.induct)
  case (1 p i j)
  show ?case
  proof (cases "i < j")
    case False
    then show ?thesis
      by (subst splitext_loop.simps) auto
  next
    case True
    show ?thesis
    proof (cases "p ! i \<noteq> CHR ''.''")
      case True
      with \<open>i < j\<close> show ?thesis
        by (subst splitext_loop.simps) auto
    next
      case False
      then have "splitext_loop p i j = splitext_loop p (Suc i) j"
        using \<open>i < j\<close> by (subst splitext_loop.simps) simp
      also have "\<dots> \<longleftrightarrow> (\<exists>k. Suc i \<le> k \<and> k < j \<and> p ! k \<noteq> CHR ''.'')"
        using "1.IH" \<open>i < j\<close> False by simp
      also have "\<dots> \<longleftrightarrow> (\<exists>k. i \<le> k \<and> k < j \<and> p ! k \<noteq> CHR ''.'')"
        using False by (metis Suc_leD Suc_leI le_neq_implies_less)
      finally show ?thesis .
    qed
  qed
qed

lemma in_set_drop_nth:
  "c \<in> set (drop n xs) \<longleftrightarrow> (\<exists>k. n \<le> k \<and> k < length xs \<and> xs ! k = c)"
proof
  assume "c \<in> set (drop n xs)"
  then obtain i where i: "i < length (drop n xs)" "drop n xs ! i = c"
    by (auto simp: in_set_conv_nth)
  then have "n \<le> n + i \<and> n + i < length xs \<and> xs ! (n + i) = c"
    by auto
  then show "\<exists>k. n \<le> k \<and> k < length xs \<and> xs ! k = c" by blast
next
  assume "\<exists>k. n \<le> k \<and> k < length xs \<and> xs ! k = c"
  then obtain k where k: "n \<le> k" "k < length xs" "xs ! k = c" by blast
  then have "k - n < length (drop n xs)" "drop n xs ! (k - n) = c"
    by auto
  then show "c \<in> set (drop n xs)"
    by (auto simp: in_set_conv_nth)
qed

lemma splitext_extension:
  assumes dot: "CHR ''.'' \<notin> set ext" and sep: "CHR ''/'' \<notin> set ext"
    and name: "\<exists>c\<in>set (filename base). c \<noteq> CHR ''.''"
  shows "splitext (base @ ''.'' @ ext) = (base, ''.'' @ ext)"
proof -
  let ?p = "base @ CHR ''.'' # ext"
  let ?n = "nat (rfind base CHR ''/'' + 1)"
  have d: "rfind ?p CHR ''.'' = int (length base)"
    using dot by (rule rfind_append_last)
  have s: "rfind ?p CHR ''/'' = rfind base CHR ''/''"
    using sep rfind_append_notin [of "CHR ''/''" "CHR ''.'' # ext" base] by simp
  have b: "- 1 \<le> rfind base CHR ''/''" "rfind base CHR ''/'' < int (length base)"
    using rfind_bounds [of base "CHR ''/''"] by auto
  obtain k where k: "?n \<le> k" "k < length base" "base ! k \<noteq> CHR ''.''"
    using name by (auto simp: filename_def in_set_drop_nth)
  then have "?p ! k \<noteq> CHR ''.''"
    by (simp add: nth_append)
  then have "splitext_loop ?p ?n (length base)"
    using k by (auto simp: splitext_loop_iff)
  then show ?thesis
    using d s b by (simp add: splitext_def Let_def)
qed

lemma splitext_no_extension:
  assumes "CHR ''.'' \<notin> set (filename p)"
  shows "splitext p = (p, [])"
proof -
  have "\<not> rfind p CHR ''.'' > rfind p CHR ''/''"
  proof
    assume gt: "rfind p CHR ''.'' > rfind p CHR ''/''"
    then have "CHR ''.'' \<in> set p"
      using rfind_bounds [of p "CHR ''/''"] by (auto simp: rfind_def split: if_splits)
    then obtain as bs where p: "p = as @ CHR ''.'' # bs" and "CHR ''.'' \<notin> set bs"
      using split_list_last [of "CHR ''.''" p] by auto
    then have "rfind p CHR ''.'' = int (length as)"
      using rfind_append_last [of "CHR ''.''" bs as] by simp
    then have "nat (rfind p CHR ''/'' + 1) \<le> length as"
      using gt by simp
    moreover have "length as < length p" "p ! length as = CHR ''.''"
      using p by auto
    ultimately have "CHR ''.'' \<in> set (filename p)"
      unfolding filename_def in_set_drop_nth by blast
    with assms show False by simp
  qed
  then show ?thesis
    by (simp add: splitext_def Let_def)
qed

lemma rfind_nth: "c \<in> set s \<Longrightarrow> s ! nat (rfind s c) = c"
proof -
  assume "c \<in> set s"
  then obtain as bs where "s = as @ c # bs" and "c \<notin> set bs"
    using split_list_last [of c s] by auto
  then show ?thesis
    using rfind_append_last [of c bs as] by simp
qed

lemma rfind_greatest: "k < length s \<Longrightarrow> s ! k = c \<Longrightarrow> int k \<le> rfind s c"
proof -
  assume k: "k < length s" "s ! k = c"
  then have "c \<in> set s" by auto
  then obtain as bs where s: "s = as @ c # bs" and bs: "c \<notin> set bs"
    using split_list_last [of c s] by auto
  have r: "rfind s c = int (length as)"
    using s bs rfind_append_last [of c bs as] by simp
  have "k \<le> length as"
  proof (rule ccontr)
    assume "\<not> k \<le> length as"
    then have "s ! k = bs ! (k - Suc (length as))" "k - Suc (length as) < length bs"
      using s k(1) by (auto simp: nth_append nth_Cons')
    then have "s ! k \<in> set bs" by auto
    with k(2) bs show False by simp
  qed
  with r show ?thesis by simp
qed

lemma dropWhile_keeps_later:
  assumes "i < j" and "j < length f" and "\<not> P (f ! i)"
  shows "f ! j \<in> set (dropWhile P f)"
proof -
  let ?m = "length (takeWhile P f)"
  have "?m \<le> i"
  proof (rule ccontr)
    assume "\<not> ?m \<le> i"
    then have "i < ?m" by simp
    then have "takeWhile P f ! i = f ! i"
      by (rule takeWhile_nth)
    moreover have "takeWhile P f ! i \<in> set (takeWhile P f)"
      using \<open>i < ?m\<close> by (rule nth_mem)
    ultimately have "P (f ! i)"
      using set_takeWhileD [of "f ! i" P f] by simp
    with assms(3) show False by simp
  qed
  then have "\<exists>k. ?m \<le> k \<and> k < length f \<and> f ! k = f ! j"
    using assms(1,2) by (intro exI [of _ j]) simp
  then show ?thesis
    by (simp add: dropWhile_eq_drop in_set_drop_nth)
qed

lemma dropWhile_member_split:
  assumes "c \<in> set (dropWhile P f)" and "P c"
  shows "\<exists>i j. i < j \<and> j < length f \<and> \<not> P (f ! i) \<and> f ! j = c"
proof -
  let ?m = "length (takeWhile P f)"
  from assms(1) obtain j where j: "?m \<le> j" "j < length f" "f ! j = c"
    by (auto simp: dropWhile_eq_drop in_set_drop_nth)
  then have m: "?m < length f" by simp
  then have notP: "\<not> P (f ! ?m)"
    by (rule nth_length_takeWhile)
  with j(3) assms(2) have "?m \<noteq> j" by auto
  with j(1) have "?m < j" by simp
  with j notP show ?thesis by blast
qed

lemma splitext_dotfile:
  assumes "CHR ''.'' \<notin> set (lstrip (filename p) ''.'')"
  shows "splitext p = (p, [])"
proof -
  let ?n = "nat (rfind p CHR ''/'' + 1)"
  let ?d = "nat (rfind p CHR ''.'')"
  have "\<not> (rfind p CHR ''.'' > rfind p CHR ''/'' \<and> splitext_loop p ?n ?d)"
  proof
    assume a: "rfind p CHR ''.'' > rfind p CHR ''/'' \<and> splitext_loop p ?n ?d"
    then have pos: "0 \<le> rfind p CHR ''.''"
      using rfind_bounds [of p "CHR ''/''"] by simp
    then have mem: "CHR ''.'' \<in> set p"
      by (auto simp: rfind_def split: if_splits)
    have d: "?d < length p" "p ! ?d = CHR ''.''"
      using pos rfind_bounds [of p "CHR ''.''"] rfind_nth [OF mem] by auto
    from a obtain k where k: "?n \<le> k" "k < ?d" "p ! k \<noteq> CHR ''.''"
      by (auto simp: splitext_loop_iff)
    let ?f = "drop ?n p"
    have "k - ?n < ?d - ?n" "?d - ?n < length ?f" "\<not> (?f ! (k - ?n) = CHR ''.'')"
      using k d by auto
    then have "?f ! (?d - ?n) \<in> set (dropWhile (\<lambda>c. c = CHR ''.'') ?f)"
      by (rule dropWhile_keeps_later)
    moreover have "?f ! (?d - ?n) = CHR ''.''"
      using k d by simp
    ultimately show False
      using assms by (simp add: filename_def lstrip_def)
  qed
  then show ?thesis
    by (auto simp: splitext_def Let_def)
qed

lemma splitext_last_dot:
  assumes "CHR ''.'' \<in> set (lstrip (filename p) ''.'')"
  shows "splitext p = (take (nat (rfind p CHR ''.'')) p, drop (nat (rfind p CHR ''.'')) p)"
proof -
  let ?n = "nat (rfind p CHR ''/'' + 1)"
  let ?d = "nat (rfind p CHR ''.'')"
  let ?f = "drop ?n p"
  from assms obtain i j where
    ij: "i < j" "j < length ?f" "?f ! i \<noteq> CHR ''.''" "?f ! j = CHR ''.''"
    using dropWhile_member_split [of "CHR ''.''" "\<lambda>c. c = CHR ''.''" ?f]
    by (auto simp: filename_def lstrip_def)
  then have pj: "?n + j < length p" "p ! (?n + j) = CHR ''.''"
    and pi: "p ! (?n + i) \<noteq> CHR ''.''"
    by auto
  have ge: "int (?n + j) \<le> rfind p CHR ''.''"
    using pj by (rule rfind_greatest)
  then have gt: "rfind p CHR ''.'' > rfind p CHR ''/''"
    by linarith
  have "nat (int (?n + j)) \<le> ?d"
    using ge by (rule nat_mono)
  then have "?n + j \<le> ?d"
    by (simp only: nat_int)
  then have "?n \<le> ?n + i \<and> ?n + i < ?d \<and> p ! (?n + i) \<noteq> CHR ''.''"
    using ij(1) pi by simp
  then have "splitext_loop p ?n ?d"
    unfolding splitext_loop_iff by blast
  with gt show ?thesis
    by (simp add: splitext_def Let_def)
qed

lemma splitext_base:
  "fst (splitext key) =
     (if CHR ''.'' \<in> set (lstrip (filename key) ''.'') then spec_sidecar_base key else key)"
proof (cases "CHR ''.'' \<in> set (lstrip (filename key) ''.'')")
  case True
  then have "CHR ''.'' \<in> set (filename key)"
    using set_dropWhileD [of "CHR ''.''" "\<lambda>c. c \<in> set ''.''" "filename key"]
    by (simp add: lstrip_def)
  then show ?thesis
    using True by (simp add: splitext_last_dot spec_sidecar_base_def)
next
  case False
  then show ?thesis
    by (simp add: splitext_dotfile)
qed

text \<open>
  C9.  The sidecar paths are built from the primary key with its extension removed as
  \<open>os.path.splitext\<close> removes it, for every key: when the file name (what follows the
  last \<open>/\<close>) still contains a \<open>.\<close> after its leading dots are set aside, the base is
  the key up to its last \<open>.\<close>; otherwise (no \<open>.\<close> in the file name, or only leading
  dots as in \<open>.bashrc\<close>) the base is the whole key.  The crypto sidecar is the base
  followed by \<open>.txt\<close>, the detector sidecar the base followed by \<open>.detectors.txt\<close>.
  In particular a key \<open>base.ext\<close>, where \<open>ext\<close> contains neither \<open>.\<close> nor \<open>/\<close> and
  the file name part of \<open>base\<close> is not made of dots only, gives \<open>base.txt\<close> and
  \<open>base.detectors.txt\<close>; \<open>a/b.jpg\<close> gives \<open>a/b.txt\<close> and \<open>a/b.detectors.txt\<close>, and
  \<open>a/b\<close> gives \<open>a/b.txt\<close>.
\<close>

theorem sidecar_paths:
  "crypto_path_of key =
     (if CHR ''.'' \<in> set (lstrip (filename key) ''.'') then spec_sidecar_base key else key)
       @ ''.txt''
   \<and> detectors_path_of key =
     (if CHR ''.'' \<in> set (lstrip (filename key) ''.'') then spec_sidecar_base key else key)
       @ ''.detectors.txt''
   \<and> (CHR ''.'' \<notin> set ext \<and> CHR ''/'' \<notin> set ext \<and> (\<exists>c\<in>set (filename base). c \<noteq> CHR ''.'') \<longrightarrow>
      crypto_path_of (base @ ''.'' @ ext) = base @ ''.txt'' \<and>
      detectors_path_of (base @ ''.'' @ ext) = base @ ''.detectors.txt'')
   \<and> crypto_path_of ''a/b.jpg'' = ''a/b.txt''
   \<and> detectors_path_of ''a/b.jpg'' = ''a/b.detectors.txt''
   \<and> crypto_path_of ''a/b'' = ''a/b.txt''"
proof -
  have f: "filename ''a/b'' = ''b''"
    by (simp add: filename_def rfind_def)
  have "splitext (''a/b'' @ ''.'' @ ''jpg'') = (''a/b'', ''.'' @ ''jpg'')"
    using f by (intro splitext_extension) auto
  then have jpg: "splitext ''a/b.jpg'' = (''a/b'', ''.jpg'')"
    by simp
  have plain: "splitext ''a/b'' = (''a/b'', [])"
    using f by (intro splitext_no_extension) auto
  have ext: "fst (splitext (base @ ''.'' @ ext)) = base"
    if "CHR ''.'' \<notin> set ext \<and> CHR ''/'' \<notin> set ext \<and> (\<exists>c\<in>set (filename base). c \<noteq> CHR ''.'')"
    using that splitext_extension [of ext base] by auto
  show ?thesis
    unfolding crypto_path_of_def detectors_path_of_def splitext_base [symmetric]
    using jpg plain ext by simp
qed

theorem sidecar_paths_witness:
  "crypto_path_of ''prod/images/cat.jpg'' = ''prod/images/cat.txt''
   \<and> detectors_path_of ''prod/images/cat.jpg'' = ''prod/images/cat.detectors.txt''
   \<and> crypto_path_of ''v1.2/cat'' = ''v1.2/cat.txt''
   \<and> detectors_path_of ''v1.2/cat'' = ''v1.2/cat.detectors.txt''
   \<and> crypto_path_of ''.bashrc'' = ''.bashrc.txt''
   \<and> crypto_path_of ''a/..jpg'' = ''a/..jpg.txt''
   \<and> detectors_path_of ''a/.b.tar.gz'' = ''a/.b.tar.detectors.txt''"
  using
    sidecar_paths [where base = "''prod/images/cat''" and ext = "''jpg''" and key = "''v1.2/cat''"]
    sidecar_paths [where key = "''.bashrc''"]
    sidecar_paths [where key = "''a/..jpg''"]
    sidecar_paths [where key = "''a/.b.tar.gz''"]
  by (simp add: filename_def rfind_def lstrip_def spec_sidecar_base_def)

text \<open>
  The specification's wording alone, "removes the last \<open>.ext\<close> suffix", does not
  describe the code on file names whose only dots are leading ones: for the key
  \<open>a/.jpg\<close> it gives the base \<open>a/\<close> and the crypto sidecar \<open>a/.txt\<close>, where the code
  keeps the whole key and yields \<open>a/.jpg.txt\<close>.
\<close>

theorem sidecar_paths_leading_dot:
  "spec_sidecar_base ''a/.jpg'' @ ''.txt'' = ''a/.txt''
   \<and> crypto_path_of ''a/.jpg'' = ''a/.jpg.txt''
   \<and> crypto_path_of ''a/.jpg'' \<noteq> spec_sidecar_base ''a/.jpg'' @ ''.txt''"
proof -
  have "splitext ''a/.jpg'' = (''a/.jpg'', [])"
    by (rule splitext_dotfile) (simp add: filename_def rfind_def lstrip_def)
  then show ?thesis
    by (simp add: crypto_path_of_def spec_sidecar_base_def filename_def rfind_def)
qed

end
